theory Spec2Isabelle
  imports Main "HOL-Library.Word" "HOL-Library.Sublist"
begin

unbundle bit_operations_syntax

section \<open>Helper functions of the calendar component (src/basic/tools.ts)\<close>

text \<open>
  The module imports \<open>CALENDAR_PANELS\<close>, \<open>FULL_LAYOUT\<close>, \<open>VIEWS\<close> and the enum
  \<open>View\<close> from \<open>./constants\<close>, and \<open>values\<close> from \<open>../utils/shared\<close>; neither file
  is among the sources. Every function below therefore takes the constants it reads
  as explicit arguments. JavaScript numbers that hold panel indices, counters and view
  flags are modelled as \<open>int\<close> (they are integers far below \<open>2 ^ 53\<close>), strings as
  \<open>string\<close>, \<open>undefined\<close> as \<open>None\<close>.
\<close>

subsection \<open>Circular panel-index distance\<close>

text \<open>
  \<^verbatim>\<open>
  export const circularDiff = (idx: number, curr: number): number => {
    const half = Math.floor(CALENDAR_PANELS / 2);
    if (idx < curr - half) idx = idx + CALENDAR_PANELS;
    if (idx > curr + half) idx = idx - CALENDAR_PANELS;
    return idx - curr;
  };
  \<close>
  \<open>Math.floor (n / 2)\<close> on an integer is \<open>div\<close> on \<open>int\<close>, which rounds down.
  The first argument is the value of \<open>CALENDAR_PANELS\<close>; the parameter \<open>curr\<close> is
  written \<open>cur\<close>, and the two assignments to \<open>idx\<close> are \<open>idx1\<close> and \<open>idx2\<close>.
\<close>

definition circularDiff :: "int \<Rightarrow> int \<Rightarrow> int \<Rightarrow> int" where
  "circularDiff CALENDAR_PANELS idx cur =
     (let half = CALENDAR_PANELS div 2;
          idx1 = (if idx < cur - half then idx + CALENDAR_PANELS else idx);
          idx2 = (if idx1 > cur + half then idx1 - CALENDAR_PANELS else idx1)
      in idx2 - cur)"

subsection \<open>View flags\<close>

text \<open>
  The expressions over the missing constants that the view functions read:
  \<open>values (VIEWS)\<close> (the ordered list of view names), \<open>VIEWS.MONTH\<close>, and the
  three members of the numeric enum \<open>View\<close>.
\<close>

record view_consts =
  VIEWS_values :: "string list"
  VIEWS_MONTH :: string
  View_week :: int
  View_month :: int
  View_schedule :: int

text \<open>\<open>Array.prototype.indexOf\<close>: the first position of the element, \<open>-1\<close> when absent.\<close>

fun indexOf :: "'a list \<Rightarrow> 'a \<Rightarrow> int" where
  "indexOf [] x = - 1"
| "indexOf (y # ys) x =
     (if y = x then 0 else (let i = indexOf ys x in if i < 0 then - 1 else i + 1))"

text \<open>
  \<open>1 << idx\<close>: JavaScript shifts a 32-bit integer by the count taken modulo 32 and
  reads the result as a signed 32-bit value.
\<close>

definition shl1 :: "int \<Rightarrow> int" where
  "shl1 idx = sint (push_bit (nat (idx mod 32)) (1 :: 32 word))"

text \<open>
  \<^verbatim>\<open>
  export const viewFlag = (view: string): View => {
    const inputView = view || VIEWS.MONTH;
    const idx = values(VIEWS).indexOf(inputView as CalendarView);
    return idx < 0 ? View.month : 1 << idx;
  };
  \<close>
  A string is falsy exactly when it is empty.
\<close>

definition viewFlag :: "view_consts \<Rightarrow> string \<Rightarrow> int" where
  "viewFlag vc view =
     (let inputView = (if view \<noteq> [] then view else VIEWS_MONTH vc);
          idx = indexOf (VIEWS_values vc) inputView
      in if idx < 0 then View_month vc else shl1 idx)"

text \<open>
  The argument of \<open>isView\<close> has type \<open>unknown\<close>: any JavaScript value. Strict equality
  \<open>===\<close> with a number holds for that number only, without coercion. Numbers are
  restricted to integers here.
\<close>

datatype jsvalue = JNumber int | JString string | JBoolean bool | JUndefined | JNull

text \<open>
  \<^verbatim>\<open>
  export const isView = (flag: unknown): flag is View =>
    flag === View.week || flag === View.month || flag === View.schedule;
  \<close>
\<close>

definition isView :: "view_consts \<Rightarrow> jsvalue \<Rightarrow> bool" where
  "isView vc flag =
     (flag = JNumber (View_week vc) \<or> flag = JNumber (View_month vc)
      \<or> flag = JNumber (View_schedule vc))"

text \<open>
  \<open>Math.log2\<close> on an integer flag. The result is an array index only when the flag is
  a power of two; a flag that is zero, negative or not a power of two gives
  \<open>-Infinity\<close>, \<open>NaN\<close> or a fraction, none of which is an index: \<open>None\<close>.
\<close>

function Math_log2 :: "int \<Rightarrow> nat option" where
  "Math_log2 x =
     (if x \<le> 0 then None
      else if x = 1 then Some 0
      else if x mod 2 = 0 then map_option Suc (Math_log2 (x div 2))
      else None)"
  by pat_completeness auto
termination
  by (relation "measure nat") auto

text \<open>Reading \<open>xs[i]\<close>: \<open>undefined\<close> (here \<open>None\<close>) outside the array.\<close>

definition at_index :: "'a list \<Rightarrow> nat \<Rightarrow> 'a option" where
  "at_index xs i = (if i < length xs then Some (xs ! i) else None)"

text \<open>
  \<^verbatim>\<open>
  export const flagView = (flag: View) => values(VIEWS)[Math.log2(flag)];
  \<close>
\<close>

definition flagView :: "view_consts \<Rightarrow> int \<Rightarrow> string option" where
  "flagView vc flag =
     (case Math_log2 flag of
        None \<Rightarrow> None
      | Some i \<Rightarrow> at_index (VIEWS_values vc) i)"

text \<open>
  Modelled from the spec: the values of the constants in \<open>constants.ts\<close> are missing.
  The spec names three display modes, week, month and schedule, in the order in which
  \<open>isView\<close> lists the enum members, and encodes each as a power of two by position,
  so that \<open>0\<close> and \<open>8\<close> are not flags: the names are at positions 0, 1, 2 and the
  flags are 1, 2, 4.
\<close>

definition wx_views :: view_consts where
  "wx_views =
     \<lparr> VIEWS_values = [''week'', ''month'', ''schedule''],
       VIEWS_MONTH = ''month'',
       View_week = 1, View_month = 2, View_schedule = 4 \<rparr>"

subsection \<open>Once-emitter\<close>

text \<open>
  \<^verbatim>\<open>
  export const onceEmitter = (instance: ComponentInstance, event: string): OnceEmitter => {
    let emits = 0;
    return {
      emit: function (...detail: any[]) {
        if (emits++) return;
        instance.triggerEvent(event, ...detail);
      },
      cancel: function () {
        emits++;
      }
    };
  };
  \<close>
  The state of one emitter is the counter held by the closure together with the calls
  of \<open>instance.triggerEvent\<close> it has made so far, each recorded by its argument list.
\<close>

record 'd emitter =
  emits :: int
  triggered :: "'d list list"

definition onceEmitter :: "'d emitter" where
  "onceEmitter = \<lparr> emits = 0, triggered = [] \<rparr>"

text \<open>\<open>emits++\<close> yields the old value and increments; a number is truthy when not 0.\<close>

definition emit :: "'d list \<Rightarrow> 'd emitter \<Rightarrow> 'd emitter" where
  "emit detail s =
     (let old = emits s; s' = s\<lparr> emits := old + 1 \<rparr>
      in if old \<noteq> 0 then s' else s'\<lparr> triggered := triggered s' @ [detail] \<rparr>)"

definition cancel :: "'d emitter \<Rightarrow> 'd emitter" where
  "cancel s = s\<lparr> emits := emits s + 1 \<rparr>"

text \<open>A use of the emitter is a sequence of calls of its two methods.\<close>

datatype 'd emitter_call = Emit "'d list" | Cancel

fun call :: "'d emitter_call \<Rightarrow> 'd emitter \<Rightarrow> 'd emitter" where
  "call (Emit detail) s = emit detail s"
| "call Cancel s = cancel s"

fun calls :: "'d emitter_call list \<Rightarrow> 'd emitter \<Rightarrow> 'd emitter" where
  "calls [] s = s"
| "calls (c # cs) s = calls cs (call c s)"

subsection \<open>Node-rect query\<close>

text \<open>
  A promise is pending until its executor resolves or rejects it; the first
  settlement stands.
\<close>

datatype ('a, 'e) promise = Pending | Resolved 'a | Rejected 'e

text \<open>
  \<^verbatim>\<open>
  export const nodeRect = (component: ComponentInstance) => {
    const selectorQuery = component.createSelectorQuery().in(component);
    return (selector: string) =>
      new Promise<BoundingClientRects>((resolve, reject) => {
        selectorQuery
          .selectAll(selector)
          .boundingClientRect(results => {
            const rects = results as unknown as BoundingClientRects;
            if (rects.length) resolve(rects);
            else reject(`view not found by selector ${selector}`);
          })
          .exec();
      });
  };
  \<close>
  The host component is modelled by what its selector query hands to the callback:
  \<open>Some rects\<close>, one bounding rect for each node the selector matches, or \<open>None\<close>
  when the host never runs the callback. The callback is the only code that settles
  the promise.
\<close>

definition nodeRect ::
  "(string \<Rightarrow> 'r list option) \<Rightarrow> string \<Rightarrow> ('r list, string) promise" where
  "nodeRect component selector =
     (case component selector of
        None \<Rightarrow> Pending
      | Some rects \<Rightarrow>
          if length rects \<noteq> 0 then Resolved rects
          else Rejected (''view not found by selector '' @ selector))"

subsection \<open>Layout hide classes\<close>

definition LHCP :: string where
  "LHCP = ''wc--hide-''"

text \<open>\<open>Array.prototype.join\<close> on strings.\<close>

fun join :: "string \<Rightarrow> string list \<Rightarrow> string" where
  "join sep [] = []"
| "join sep [x] = x"
| "join sep (x # y # ys) = x @ sep @ join sep (y # ys)"

text \<open>
  \<^verbatim>\<open>
  export const layoutHideCls = (layout?: Array<LayoutArea>): string => {
    if (!layout?.length) return '';
    const hideAreas = FULL_LAYOUT.filter(item => !layout.includes(item));
    return hideAreas.map(item => `${LHCP}${item}`).join(' ');
  };
  \<close>
  The first argument is the value of \<open>FULL_LAYOUT\<close>; an omitted \<open>layout\<close> is \<open>None\<close>.
\<close>

definition layoutHideCls :: "string list \<Rightarrow> string list option \<Rightarrow> string" where
  "layoutHideCls FULL_LAYOUT layout =
     (case layout of
        None \<Rightarrow> []
      | Some l \<Rightarrow>
          if length l = 0 then []
          else (let hideAreas = filter (\<lambda>item. item \<notin> set l) FULL_LAYOUT
                in join '' '' (map (\<lambda>item. LHCP @ item) hideAreas)))"

text \<open>
  Both class tests build \<open>new RegExp (`${LHCP}${area}\\s*`)\<close>: the area name is pasted
  into the pattern source. The type \<open>LayoutArea\<close> (not among the sources) is a set of
  area names; for a name of letters and digits the pattern is the literal text
  \<open>LHCP\<close> followed by the name, followed by any run of whitespace. Other characters
  could act as pattern syntax, which is not interpreted here: the constructor is then
  modelled as \<open>None\<close>.
\<close>

definition alnum :: "char \<Rightarrow> bool" where
  "alnum c =
     (c \<in> set ''abcdefghijklmnopqrstuvwxyzABCDEFGHIJKLMNOPQRSTUVWXYZ0123456789'')"

definition hideRegExp :: "string \<Rightarrow> string option" where
  "hideRegExp area = (if list_all alnum area then Some (LHCP @ area) else None)"

text \<open>
  \<open>RegExp.prototype.test\<close> for the pattern \<open>lit\s*\<close>: the match is tried at every
  position of the subject from the left; at a position the literal text must follow,
  and \<open>\s*\<close> then takes the whitespace after it, possibly none.
\<close>

fun regTest :: "string \<Rightarrow> string \<Rightarrow> bool" where
  "regTest lit [] = (lit = [])"
| "regTest lit (c # cs) = (prefix lit (c # cs) \<or> regTest lit cs)"

text \<open>
  \<^verbatim>\<open>
  export const addLayoutHideCls = (cls: string, area: LayoutArea): string => {
    const reg = new RegExp(`${LHCP}${area}\\s*`);
    if (reg.test(cls)) return cls;
    return `${cls} ${LHCP}${area}`;
  };
  \<close>
\<close>

definition addLayoutHideCls :: "string \<Rightarrow> string \<Rightarrow> string option" where
  "addLayoutHideCls cls area =
     (case hideRegExp area of
        None \<Rightarrow> None
      | Some reg \<Rightarrow>
          if regTest reg cls then Some cls else Some (cls @ '' '' @ LHCP @ area))"

text \<open>
  \<^verbatim>\<open>
  export const hasLayoutArea = (cls: string, area: LayoutArea) =>
    !new RegExp(`${LHCP}${area}\\s*`).test(cls);
  \<close>
\<close>

definition hasLayoutArea :: "string \<Rightarrow> string \<Rightarrow> bool option" where
  "hasLayoutArea cls area =
     (case hideRegExp area of
        None \<Rightarrow> None
      | Some reg \<Rightarrow> Some (\<not> regTest reg cls))"

subsection \<open>Tick delays\<close>

text \<open>
  \<^verbatim>\<open>
  export const nextTick = (callback?: T) => {
    return new Promise<R>(resolve => {
      wx.nextTick(() => {
        resolve(callback?.());
      });
    });
  };

  export const severalTicks = async (n: number) => {
    while (n--) {
      await nextTick();
    }
  };
  \<close>
  The asynchronous function is a machine with the loop variable, the place where it
  stands, and the host's queue of callbacks handed to \<open>wx.nextTick\<close> and not yet run.
  What happens is recorded as a trace.
\<close>

datatype tick_event = TickRequested | TickFired | Returned

datatype tick_phase = Running | Awaiting | Done

record ticks =
  loop_n :: int
  phase :: tick_phase
  queued :: nat
  trace :: "tick_event list"

text \<open>\<open>nextTick ()\<close> creates the promise and hands one callback to the host.\<close>

definition nextTick :: "ticks \<Rightarrow> ticks" where
  "nextTick s = s\<lparr> queued := queued s + 1, trace := trace s @ [TickRequested] \<rparr>"

text \<open>The host runs a queued callback, which resolves the promise of that tick.\<close>

definition host_tick :: "ticks \<Rightarrow> ticks" where
  "host_tick s = s\<lparr> queued := queued s - 1, trace := trace s @ [TickFired] \<rparr>"

text \<open>
  One step. In the loop test \<open>n--\<close> reads \<open>n\<close> and decrements it; when the old value
  is not 0 the body calls \<open>nextTick\<close> and suspends at \<open>await\<close>, otherwise the function
  returns and its promise resolves. A suspended function resumes when the host has run
  the callback; with nothing queued it stays suspended.
\<close>

definition tick_step :: "ticks \<Rightarrow> ticks" where
  "tick_step s =
     (case phase s of
        Running \<Rightarrow>
          (let old = loop_n s; s' = s\<lparr> loop_n := old - 1 \<rparr>
           in if old \<noteq> 0 then (nextTick s')\<lparr> phase := Awaiting \<rparr>
              else s'\<lparr> phase := Done, trace := trace s' @ [Returned] \<rparr>)
      | Awaiting \<Rightarrow>
          if queued s > 0 then (host_tick s)\<lparr> phase := Running \<rparr> else s
      | Done \<Rightarrow> s)"

definition severalTicks :: "int \<Rightarrow> ticks" where
  "severalTicks n = \<lparr> loop_n = n, phase = Running, queued = 0, trace = [] \<rparr>"

text \<open>
  Running the machine with fuel: \<open>Some\<close> final state once the function has returned,
  \<open>None\<close> when the fuel ends first. The loop of \<open>severalTicks\<close> does not end for
  every \<open>n\<close>.
\<close>

fun run_ticks :: "nat \<Rightarrow> ticks \<Rightarrow> ticks option" where
  "run_ticks fuel s =
     (if phase s = Done then Some s
      else (case fuel of 0 \<Rightarrow> None | Suc k \<Rightarrow> run_ticks k (tick_step s)))"

declare run_ticks.simps [simp del]
declare Math_log2.simps [simp del]

section \<open>Properties\<close>

subsection \<open>circularDiff\<close>

text \<open>
  Claim C1. For all integers \<open>c\<close> and \<open>t\<close> with \<open>t\<close> in
  \<open>[c - CALENDAR_PANELS, c + CALENDAR_PANELS]\<close>, \<open>circularDiff (t, c)\<close> is a signed
  displacement \<open>d\<close> with \<open>|d| \<le> floor (CALENDAR_PANELS / 2)\<close> and
  \<open>c + d\<close> congruent to \<open>t\<close> modulo \<open>CALENDAR_PANELS\<close>. The statement holds for every
  value \<open>N\<close> of the constant.
\<close>

theorem circularDiff_shortest:
  assumes "c - N \<le> t" and "t \<le> c + N"
  shows "\<bar>circularDiff N t c\<bar> \<le> N div 2
         \<and> (c + circularDiff N t c) mod N = t mod N"
proof -
  consider (low) "t < c - N div 2" | (high) "c + N div 2 < t"
    | (mid) "c - N div 2 \<le> t" "t \<le> c + N div 2"
    by linarith
  then show ?thesis
  proof cases
    case low
    with assms have d: "circularDiff N t c = t + N - c"
      by (simp add: circularDiff_def Let_def) linarith
    from low assms have "\<bar>t + N - c\<bar> \<le> N div 2" by linarith
    moreover have "(c + (t + N - c)) mod N = t mod N" by simp
    ultimately show ?thesis by (simp only: d) 
  next
    case high
    with assms have d: "circularDiff N t c = t - N - c"
      by (simp add: circularDiff_def Let_def) linarith
    from high assms have "\<bar>t - N - c\<bar> \<le> N div 2" by linarith
    moreover have "(c + (t - N - c)) mod N = t mod N"
      by (simp add: algebra_simps) 
    ultimately show ?thesis by (simp only: d)
  next
    case mid
    then have d: "circularDiff N t c = t - c"
      by (simp add: circularDiff_def Let_def)
    from mid have "\<bar>t - c\<bar> \<le> N div 2" by linarith
    then show ?thesis by (simp add: d)
  qed
qed

theorem circularDiff_shortest_witness:
  "(2::int) - 3 \<le> 0 \<and> (0::int) \<le> 2 + 3
   \<and> \<bar>circularDiff 3 0 2\<bar> \<le> 3 div 2 \<and> (2 + circularDiff 3 0 2) mod 3 = 0 mod 3
   \<and> circularDiff 3 0 2 = 1"
  using circularDiff_shortest [of 2 3 0] by (simp add: circularDiff_def)

subsection \<open>View flags\<close>

lemma indexOf_absent: "x \<notin> set xs \<Longrightarrow> indexOf xs x = - 1"
  by (induction xs) (auto simp: Let_def)

lemma indexOf_present:
  "x \<in> set xs \<Longrightarrow> 0 \<le> indexOf xs x \<and> nat (indexOf xs x) < length xs
     \<and> xs ! nat (indexOf xs x) = x"
proof (induction xs)
  case Nil
  then show ?case by simp
next
  case (Cons y ys)
  show ?case
  proof (cases "y = x")
    case True
    then show ?thesis by simp
  next
    case False
    with Cons.prems have "x \<in> set ys" by simp
    from Cons.IH [OF this] False show ?thesis
      by (simp add: Let_def nat_add_distrib)
  qed
qed

text \<open>Below position 31 the shift neither wraps nor reaches the sign bit.\<close>

lemma sint_push1:
  assumes "n < 31"
  shows "sint (push_bit n (1 :: 32 word)) = 2 ^ n"
proof -
  have lt: "(2::int) ^ n < 2 ^ 31"
    using assms by (rule power_strict_increasing) simp
  have ge: "- (2 ^ 31) \<le> (2::int) ^ n"
    by (rule order_trans [of _ 0]) simp_all
  have "sint (push_bit n (1 :: 32 word))
          = signed_take_bit (LENGTH(32) - Suc 0) (push_bit n (sint (1 :: 32 word)))"
    by (rule signed_push_bit_eq)
  also have "\<dots> = signed_take_bit 31 (push_bit n (1::int))"
    by simp
  also have "\<dots> = signed_take_bit 31 ((2::int) ^ n)"
    by (simp add: push_bit_eq_mult)
  also have "\<dots> = 2 ^ n"
    using ge lt by (rule signed_take_bit_int_eq_self)
  finally show ?thesis .
qed

lemma shl1_small:
  assumes "0 \<le> i" and "i < 31"
  shows "shl1 i = 2 ^ nat i"
proof -
  from assms have m: "i mod 32 = i" by simp
  from assms have lt: "nat i < 31" by simp
  show ?thesis by (simp only: shl1_def m sint_push1 [OF lt])
qed

lemma Math_log2_power: "Math_log2 (2 ^ k) = Some k"
proof (induction k)
  case 0
  show ?case by (simp add: Math_log2.simps)
next
  case (Suc k)
  have "(2::int) * 2 ^ k \<noteq> 1"
    by (metis dvd_triv_left odd_one)
  then have "Math_log2 (2 ^ Suc k) = map_option Suc (Math_log2 (2 ^ k))"
    by (subst Math_log2.simps) simp
  with Suc show ?case by simp
qed

text \<open>
  Claim C2. For every name in the recognized view-name list,
  \<open>flagView (viewFlag (name)) = name\<close>: decoding the flag produced for a recognized
  view name yields that same name. The list is a parameter here; it is taken to hold
  no empty name and at most 31 names, so that \<open>1 << idx\<close> stays a positive 32-bit
  value.
\<close>

theorem flagView_viewFlag:
  assumes "name \<in> set (VIEWS_values vc)"
    and "name \<noteq> []"
    and "length (VIEWS_values vc) \<le> 31"
  shows "flagView vc (viewFlag vc name) = Some name"
proof -
  let ?idx = "indexOf (VIEWS_values vc) name"
  from indexOf_present [OF assms(1)]
  have ge: "0 \<le> ?idx" and lt: "nat ?idx < length (VIEWS_values vc)"
    and nth: "VIEWS_values vc ! nat ?idx = name"
    by simp_all
  from lt assms(3) have "?idx < 31" by linarith
  with ge have sh: "shl1 ?idx = 2 ^ nat ?idx" by (rule shl1_small)
  from assms(2) ge have "viewFlag vc name = 2 ^ nat ?idx"
    by (simp add: viewFlag_def Let_def sh)
  then show ?thesis
    by (simp add: flagView_def Math_log2_power at_index_def lt nth)
qed

theorem flagView_viewFlag_witness:
  "flagView wx_views (viewFlag wx_views ''week'') = Some ''week''
   \<and> flagView wx_views (viewFlag wx_views ''month'') = Some ''month''
   \<and> flagView wx_views (viewFlag wx_views ''schedule'') = Some ''schedule''"
  using flagView_viewFlag [of "''week''" wx_views]
    flagView_viewFlag [of "''month''" wx_views]
    flagView_viewFlag [of "''schedule''" wx_views]
  by (simp add: wx_views_def)

text \<open>
  Claim C3, as stated: \<open>viewFlag ("")\<close> and \<open>viewFlag\<close> of any string not in the
  recognized view-name list both return the flag of the view at position 0 of the
  ordered name list. With week, month, schedule as the views, both calls return 2,
  the flag of month, while the view at position 0 is week with flag 1.
\<close>

theorem viewFlag_first_view_counterexample:
  "viewFlag wx_views [] \<noteq> viewFlag wx_views (VIEWS_values wx_views ! 0)
   \<and> viewFlag wx_views ''bogus'' \<noteq> viewFlag wx_views (VIEWS_values wx_views ! 0)
   \<and> viewFlag wx_views [] = 2 \<and> viewFlag wx_views ''bogus'' = 2
   \<and> viewFlag wx_views (VIEWS_values wx_views ! 0) = 1"
  by (simp add: wx_views_def viewFlag_def shl1_def)

text \<open>
  Claim C3, amended. \<open>viewFlag ("")\<close> returns what \<open>viewFlag (VIEWS.MONTH)\<close> returns, and
  \<open>viewFlag\<close> of a non-empty string that is not in the recognized view-name list
  returns \<open>View.month\<close>: the fallback is the month view, whatever its position in the
  list.
\<close>

theorem viewFlag_fallback:
  "viewFlag vc [] = viewFlag vc (VIEWS_MONTH vc)
   \<and> (name \<noteq> [] \<and> name \<notin> set (VIEWS_values vc) \<longrightarrow> viewFlag vc name = View_month vc)"
  by (simp add: viewFlag_def Let_def indexOf_absent)

theorem viewFlag_fallback_witness:
  "viewFlag wx_views [] = viewFlag wx_views (VIEWS_MONTH wx_views)
   \<and> ''bogus'' \<noteq> [] \<and> ''bogus'' \<notin> set (VIEWS_values wx_views)
   \<and> viewFlag wx_views ''bogus'' = View_month wx_views
   \<and> View_month wx_views = 2"
  using viewFlag_fallback [of wx_views "''bogus''"]
  by (simp add: wx_views_def)

text \<open>
  Claim C9. \<open>isView (x)\<close> is true exactly when \<open>x\<close> is one of the finitely many valid
  view-flag values, one flag per recognized view, and false for every other value,
  including integers such as 0 and 8 when only three views exist. The valid values are
  the three members of the enum; where the enum lists the flags of the recognized
  names, they are exactly the values \<open>viewFlag\<close> produces for those names.
\<close>

theorem isView_exact:
  "(isView vc x \<longleftrightarrow>
      x \<in> JNumber ` {View_week vc, View_month vc, View_schedule vc})
   \<and> (map (viewFlag vc) (VIEWS_values vc) = [View_week vc, View_month vc, View_schedule vc]
        \<longrightarrow> (isView vc x \<longleftrightarrow> (\<exists>name \<in> set (VIEWS_values vc). x = JNumber (viewFlag vc name))))"
proof (intro conjI impI)
  show a: "isView vc x \<longleftrightarrow> x \<in> JNumber ` {View_week vc, View_month vc, View_schedule vc}"
    by (auto simp: isView_def)
  assume m: "map (viewFlag vc) (VIEWS_values vc) = [View_week vc, View_month vc, View_schedule vc]"
  have "(\<exists>name \<in> set (VIEWS_values vc). x = JNumber (viewFlag vc name))
        \<longleftrightarrow> x \<in> JNumber ` set (map (viewFlag vc) (VIEWS_values vc))"
    by auto
  also have "\<dots> \<longleftrightarrow> x \<in> JNumber ` {View_week vc, View_month vc, View_schedule vc}"
    by (simp only: m) simp
  finally show "isView vc x \<longleftrightarrow> (\<exists>name \<in> set (VIEWS_values vc). x = JNumber (viewFlag vc name))"
    using a by simp
qed

theorem isView_exact_witness:
  "map (viewFlag wx_views) (VIEWS_values wx_views)
     = [View_week wx_views, View_month wx_views, View_schedule wx_views]
   \<and> \<not> isView wx_views (JNumber 0) \<and> \<not> isView wx_views (JNumber 8)
   \<and> \<not> isView wx_views (JString ''month'')
   \<and> isView wx_views (JNumber 4)"
  using isView_exact [of wx_views "JNumber 8"] isView_exact [of wx_views "JNumber 0"]
   isView_exact [of wx_views "JNumber 4"] isView_exact [of wx_views "JString ''month''"]
  by (simp add: wx_views_def viewFlag_def shl1_def)

subsection \<open>Once-emitter\<close>

text \<open>Once the counter has left 0, no call changes the list of triggered events.\<close>

lemma calls_after_first:
  "emits s > 0 \<Longrightarrow> triggered (calls cs s) = triggered s"
proof (induction cs arbitrary: s)
  case Nil
  show ?case by simp
next
  case (Cons c cs)
  have "emits (call c s) > 0 \<and> triggered (call c s) = triggered s"
    using Cons.prems by (cases c) (simp_all add: emit_def cancel_def Let_def)
  with Cons.IH [of "call c s"] show ?case by simp
qed

text \<open>
  Claim C4. The once-emitter fires the underlying event at most once: the first
  \<open>emit\<close> call triggers exactly one underlying event with its arguments; every later
  \<open>emit\<close> call, also after \<open>cancel\<close>, is a no-op; and a \<open>cancel\<close> call before the first
  \<open>emit\<close> prevents every later \<open>emit\<close> from firing. For every sequence of calls on a
  fresh emitter: at most one event is triggered; when the sequence starts with
  \<open>emit (d)\<close> the events triggered are \<open>d\<close> alone, whatever follows; when it starts
  with \<open>cancel\<close> none is triggered, whatever follows.
\<close>

theorem onceEmitter_fires_once:
  "length (triggered (calls cs (onceEmitter :: 'd emitter))) \<le> 1
   \<and> triggered (calls (Emit d # cs) onceEmitter) = [d]
   \<and> triggered (calls (Cancel # cs) (onceEmitter :: 'd emitter)) = []"
proof -
  have e: "triggered (calls (Emit d # cs) onceEmitter) = [d]"
    by (simp add: calls_after_first emit_def onceEmitter_def Let_def)
  have c: "triggered (calls (Cancel # cs') (onceEmitter :: 'd emitter)) = []" for cs'
    by (simp add: calls_after_first cancel_def onceEmitter_def)
  have "length (triggered (calls cs (onceEmitter :: 'd emitter))) \<le> 1"
  proof (cases cs)
    case Nil
    then show ?thesis by (simp add: onceEmitter_def)
  next
    case (Cons x xs)
    show ?thesis
    proof (cases x)
      case (Emit d')
      then show ?thesis unfolding Cons
        by (simp add: calls_after_first emit_def onceEmitter_def Let_def)
    next
      case Cancel
      then show ?thesis unfolding Cons using c by simp
    qed
  qed
  with e c show ?thesis by simp
qed

subsection \<open>Node-rect query\<close>

text \<open>
  Claim C5. The promise returned by the node-rect query rejects if and only if the
  selector matches zero nodes, and the rejection value is then a plain string message
  that names the selector; when at least one node matches, the promise resolves with
  the list of bounding rects. Matching is what the host reports to the callback.
\<close>

theorem nodeRect_settles:
  "((\<exists>msg. nodeRect component selector = Rejected msg) \<longleftrightarrow> component selector = Some [])
   \<and> (component selector = Some [] \<longrightarrow>
        nodeRect component selector = Rejected (''view not found by selector '' @ selector))
   \<and> (component selector = Some rects \<and> rects \<noteq> [] \<longrightarrow>
        nodeRect component selector = Resolved rects)"
  by (auto simp: nodeRect_def split: option.splits)

theorem nodeRect_settles_witness:
  "(\<lambda>s. if s = ''.a'' then Some [7::nat, 8] else Some []) ''.b'' = Some []
   \<and> nodeRect (\<lambda>s. if s = ''.a'' then Some [7::nat, 8] else Some []) ''.b''
       = Rejected ''view not found by selector .b''
   \<and> (\<lambda>s. if s = ''.a'' then Some [7::nat, 8] else Some []) ''.a'' = Some [7, 8]
   \<and> [7::nat, 8] \<noteq> []
   \<and> nodeRect (\<lambda>s. if s = ''.a'' then Some [7::nat, 8] else Some []) ''.a''
       = Resolved [7, 8]"
  using nodeRect_settles [of "\<lambda>s. if s = ''.a'' then Some [7::nat, 8] else Some []" "''.b''" "[]"]
    nodeRect_settles [of "\<lambda>s. if s = ''.a'' then Some [7::nat, 8] else Some []" "''.a''" "[7, 8]"]
  by simp

subsection \<open>Layout hide classes\<close>

lemma filter_eq_single:
  "distinct xs \<Longrightarrow> a \<in> set xs \<Longrightarrow> filter (\<lambda>x. x = a) xs = [a]"
proof (induction xs)
  case Nil
  then show ?case by simp
next
  case (Cons x xs)
  show ?case
  proof (cases "x = a")
    case True
    with Cons.prems have "a \<notin> set xs" by simp
    then have "filter (\<lambda>x. x = a) xs = []" by (auto simp: filter_empty_conv)
    with True show ?thesis by simp
  next
    case False
    with Cons show ?thesis by simp
  qed
qed

text \<open>
  Claim C6. \<open>layoutHideCls\<close> applied to the empty visible-area list returns the empty
  string; applied to the full area list it returns the empty string; and applied to
  the full area list minus one area it returns a string containing exactly one
  hide-token, the token of the excluded area. The full list is a parameter; in the
  third part its areas are distinct and the visible list, which holds all of them but
  \<open>a\<close> in any order, is not empty. The result is then the token of \<open>a\<close> and nothing
  else.
\<close>

theorem layoutHideCls_cases:
  "layoutHideCls FULL (Some []) = []
   \<and> layoutHideCls FULL (Some FULL) = []
   \<and> (distinct FULL \<and> a \<in> set FULL \<and> layout \<noteq> [] \<and> set layout = set FULL - {a}
        \<longrightarrow> layoutHideCls FULL (Some layout) = LHCP @ a)"
proof (intro conjI impI)
  show "layoutHideCls FULL (Some []) = []"
    by (simp add: layoutHideCls_def)
  show "layoutHideCls FULL (Some FULL) = []"
    by (simp add: layoutHideCls_def)
  assume h: "distinct FULL \<and> a \<in> set FULL \<and> layout \<noteq> [] \<and> set layout = set FULL - {a}"
  then have "filter (\<lambda>item. item \<notin> set layout) FULL = filter (\<lambda>x. x = a) FULL"
    by (intro filter_cong) auto
  also from h have "\<dots> = [a]" by (simp add: filter_eq_single)
  finally show "layoutHideCls FULL (Some layout) = LHCP @ a"
    using h by (simp add: layoutHideCls_def)
qed

theorem layoutHideCls_cases_witness:
  "distinct [''header'', ''title'', ''subinfo'']
   \<and> ''title'' \<in> set [''header'', ''title'', ''subinfo'']
   \<and> [''subinfo'', ''header''] \<noteq> []
   \<and> set [''subinfo'', ''header''] = set [''header'', ''title'', ''subinfo''] - {''title''}
   \<and> layoutHideCls [''header'', ''title'', ''subinfo''] (Some [''subinfo'', ''header''])
       = ''wc--hide-title''"
  using layoutHideCls_cases [of "[''header'', ''title'', ''subinfo'']" "''title''"
      "[''subinfo'', ''header'']"]
  by (auto simp: LHCP_def)

text \<open>The scan of \<open>regTest\<close> finds the literal exactly when it occurs in the subject.\<close>

lemma regTest_sublist: "regTest lit s \<longleftrightarrow> sublist lit s"
  by (induction s) (simp_all add: sublist_Cons_right)

lemma hideRegExp_alnum: "list_all alnum area \<Longrightarrow> hideRegExp area = Some (LHCP @ area)"
  by (simp add: hideRegExp_def)

lemma sublist_join: "x \<in> set xs \<Longrightarrow> sublist x (join sep xs)"
proof (induction sep xs rule: join.induct)
  case (1 sep)
  then show ?case by simp
next
  case (2 sep y)
  then show ?case by simp
next
  case (3 sep y z zs)
  show ?case
  proof (cases "x = y")
    case True
    then show ?thesis by simp
  next
    case False
    with 3 have "sublist x (join sep (z # zs))" by simp
    then have "sublist x ((y @ sep) @ join sep (z # zs))"
      by (rule sublist_order.order.trans) (rule sublist_append_leftI)
    then show ?thesis by simp
  qed
qed

text \<open>
  Claim C7. \<open>addLayoutHideCls\<close> is idempotent: for every class string \<open>cls\<close> and every
  area, \<open>addLayoutHideCls (addLayoutHideCls (cls, area), area)\<close> equals
  \<open>addLayoutHideCls (cls, area)\<close>; adding an already-present area's hide token leaves
  the string unchanged. Areas are names of letters and digits.
\<close>

theorem addLayoutHideCls_idempotent:
  assumes "list_all alnum area"
  shows "\<exists>r. addLayoutHideCls cls area = Some r \<and> addLayoutHideCls r area = Some r
             \<and> (sublist (LHCP @ area) cls \<longrightarrow> r = cls)"
proof (cases "regTest (LHCP @ area) cls")
  case True
  with assms show ?thesis
    by (simp add: addLayoutHideCls_def hideRegExp_alnum regTest_sublist)
next
  case False
  have "sublist (LHCP @ area) ((cls @ '' '') @ LHCP @ area)"
    by (rule sublist_append_leftI)
  then have "regTest (LHCP @ area) (cls @ '' '' @ LHCP @ area)"
    by (simp add: regTest_sublist)
  with False assms show ?thesis
    by (simp add: addLayoutHideCls_def hideRegExp_alnum regTest_sublist)
qed

theorem addLayoutHideCls_idempotent_witness:
  "list_all alnum ''header''
   \<and> addLayoutHideCls ''wc--hide-title'' ''header'' = Some ''wc--hide-title wc--hide-header''
   \<and> addLayoutHideCls ''wc--hide-title wc--hide-header'' ''header''
       = Some ''wc--hide-title wc--hide-header''"
  using addLayoutHideCls_idempotent [of "''header''" "''wc--hide-title''"]
  by (simp add: addLayoutHideCls_def hideRegExp_def alnum_def LHCP_def)

text \<open>
  Claim C8. For every class string \<open>cls\<close> and every area, \<open>hasLayoutArea (cls, area)\<close>
  returns true if and only if the area's hide-token (the fixed prefix followed by the
  area name) is not present in \<open>cls\<close>; in particular it is the negation of the token's
  presence after \<open>layoutHideCls\<close> or \<open>addLayoutHideCls\<close> produced \<open>cls\<close>. Present
  means occurring in the string, which is what the pattern tests; areas are names of
  letters and digits. After \<open>addLayoutHideCls\<close> for the area, and after
  \<open>layoutHideCls\<close> for a visible list that leaves the area out, the token is there
  and the result is false.
\<close>

theorem hasLayoutArea_iff_absent:
  assumes "list_all alnum area"
  shows "hasLayoutArea cls area = Some (\<not> sublist (LHCP @ area) cls)
    \<and> (\<forall>cls'. addLayoutHideCls cls area = Some cls' \<longrightarrow> hasLayoutArea cls' area = Some False)
    \<and> (layout \<noteq> [] \<and> area \<in> set FULL \<and> area \<notin> set layout \<longrightarrow>
          hasLayoutArea (layoutHideCls FULL (Some layout)) area = Some False)"
proof (intro conjI allI impI)
  from assms show iff: "hasLayoutArea cls area = Some (\<not> sublist (LHCP @ area) cls)" for cls
    by (simp add: hasLayoutArea_def hideRegExp_alnum regTest_sublist)
  fix cls'
  assume "addLayoutHideCls cls area = Some cls'"
  with assms
  have "cls' = cls \<and> sublist (LHCP @ area) cls \<or> cls' = (cls @ '' '') @ LHCP @ area"
    by (simp add: addLayoutHideCls_def hideRegExp_alnum regTest_sublist split: if_splits)
  then have "sublist (LHCP @ area) cls'"
    by (elim disjE conjE) (simp, simp only: sublist_append_leftI)
  then show "hasLayoutArea cls' area = Some False"
    by (simp add: iff)
next
  let ?hidden = "filter (\<lambda>item. item \<notin> set layout) FULL"
  assume h: "layout \<noteq> [] \<and> area \<in> set FULL \<and> area \<notin> set layout"
  then have "LHCP @ area \<in> set (map (\<lambda>item. LHCP @ item) ?hidden)"
    by simp
  then have "sublist (LHCP @ area) (join '' '' (map (\<lambda>item. LHCP @ item) ?hidden))"
    by (rule sublist_join)
  with h have "sublist (LHCP @ area) (layoutHideCls FULL (Some layout))"
    by (simp add: layoutHideCls_def)
  with assms show "hasLayoutArea (layoutHideCls FULL (Some layout)) area = Some False"
    by (simp add: hasLayoutArea_def hideRegExp_alnum regTest_sublist)
qed

theorem hasLayoutArea_iff_absent_witness:
  "list_all alnum ''title''
   \<and> hasLayoutArea ''wc--hide-header'' ''title'' = Some True
   \<and> addLayoutHideCls ''wc--hide-header'' ''title'' = Some ''wc--hide-header wc--hide-title''
   \<and> hasLayoutArea ''wc--hide-header wc--hide-title'' ''title'' = Some False
   \<and> [''header''] \<noteq> [] \<and> ''title'' \<in> set [''header'', ''title'']
   \<and> ''title'' \<notin> set [''header'']
   \<and> hasLayoutArea (layoutHideCls [''header'', ''title''] (Some [''header''])) ''title''
       = Some False"
  using hasLayoutArea_iff_absent [of "''title''" "''wc--hide-header''" "[''header'']"
      "[''header'', ''title'']"]
  by (simp add: hasLayoutArea_def addLayoutHideCls_def hideRegExp_def alnum_def LHCP_def
      layoutHideCls_def)

subsection \<open>Tick delays\<close>

text \<open>The host's queue holds one callback while the function is suspended, none otherwise.\<close>

lemma tick_inv_step:
  "(if phase s = Awaiting then queued s = 1 else queued s = 0)
   \<Longrightarrow> (if phase (tick_step s) = Awaiting then queued (tick_step s) = 1
        else queued (tick_step s) = 0)"
  by (cases "phase s") (simp_all add: tick_step_def nextTick_def host_tick_def Let_def)

lemma tick_inv_reach:
  "(if phase ((tick_step ^^ k) (severalTicks n)) = Awaiting
    then queued ((tick_step ^^ k) (severalTicks n)) = 1
    else queued ((tick_step ^^ k) (severalTicks n)) = 0)"
proof (induction k)
  case 0
  show ?case by (simp add: severalTicks_def)
next
  case (Suc k)
  from tick_inv_step [OF Suc] show ?case by simp
qed

text \<open>From the loop test with \<open>m\<close> rounds left, \<open>2 * m + 1\<close> steps reach the return.\<close>

lemma run_ticks_loop:
  "phase s = Running \<Longrightarrow> queued s = 0 \<Longrightarrow> loop_n s = int m \<Longrightarrow>
   run_ticks (2 * m + 1 + extra) s =
     Some (s\<lparr> loop_n := - 1, phase := Done,
              trace := trace s @ concat (replicate m [TickRequested, TickFired]) @ [Returned] \<rparr>)"
proof (induction m arbitrary: s)
  case 0
  then have "tick_step s = s\<lparr> loop_n := - 1, phase := Done, trace := trace s @ [Returned] \<rparr>"
    by (simp add: tick_step_def Let_def)
  with 0 show ?case
    by (simp add: run_ticks.simps [of "Suc extra"] run_ticks.simps [of extra])
next
  case (Suc m)
  let ?s1 = "tick_step s"
  let ?s2 = "tick_step ?s1"
  from Suc.prems have s1: "?s1 = s\<lparr> loop_n := int m, phase := Awaiting, queued := 1,
      trace := trace s @ [TickRequested] \<rparr>"
    by (simp add: tick_step_def Let_def nextTick_def)
  then have s2: "?s2 = s\<lparr> loop_n := int m, phase := Running, queued := 0,
      trace := trace s @ [TickRequested, TickFired] \<rparr>"
    by (simp add: tick_step_def host_tick_def)
  have fuel: "2 * Suc m + 1 + extra = Suc (Suc (2 * m + 1 + extra))" by simp
  have "run_ticks (2 * Suc m + 1 + extra) s = run_ticks (2 * m + 1 + extra) ?s2"
    unfolding fuel using Suc.prems s1
    by (simp add: run_ticks.simps [of "Suc _"])
  also have "\<dots> = Some (?s2\<lparr> loop_n := - 1, phase := Done,
      trace := trace ?s2 @ concat (replicate m [TickRequested, TickFired]) @ [Returned] \<rparr>)"
    by (rule Suc.IH) (simp_all add: s2)
  finally show ?case using Suc.prems by (simp add: s2)
qed

text \<open>
  Claim C10. For every nonnegative integer \<open>n\<close>, \<open>severalTicks (n)\<close> awaits exactly
  \<open>n\<close> single-tick delays strictly in sequence, the next tick delay not being started
  until the callback of the one before has fired, and its returned promise then
  resolves. With fuel for \<open>2 * n + 1\<close> steps or more the run ends returned, its trace
  being \<open>n\<close> times a request followed by its firing, then the return; and in no state
  the machine passes through, for any \<open>n\<close>, does the host hold more than one callback.
\<close>

theorem severalTicks_sequential:
  "(0 \<le> n \<and> 2 * nat n + 1 \<le> fuel \<longrightarrow>
      run_ticks fuel (severalTicks n) =
        Some \<lparr> loop_n = - 1, phase = Done, queued = 0,
               trace = concat (replicate (nat n) [TickRequested, TickFired]) @ [Returned] \<rparr>)
   \<and> queued ((tick_step ^^ k) (severalTicks n)) \<le> 1"
proof (intro conjI impI)
  assume h: "0 \<le> n \<and> 2 * nat n + 1 \<le> fuel"
  define extra where "extra = fuel - (2 * nat n + 1)"
  with h have f: "fuel = 2 * nat n + 1 + extra" by simp
  from h have "run_ticks (2 * nat n + 1 + extra) (severalTicks n) =
     Some ((severalTicks n)\<lparr> loop_n := - 1, phase := Done,
       trace := trace (severalTicks n)
                  @ concat (replicate (nat n) [TickRequested, TickFired]) @ [Returned] \<rparr>)"
    by (intro run_ticks_loop) (simp_all add: severalTicks_def)
  then show "run_ticks fuel (severalTicks n) =
        Some \<lparr> loop_n = - 1, phase = Done, queued = 0,
               trace = concat (replicate (nat n) [TickRequested, TickFired]) @ [Returned] \<rparr>"
    by (simp add: f severalTicks_def)
next
  from tick_inv_reach [of k n] show "queued ((tick_step ^^ k) (severalTicks n)) \<le> 1"
    by (simp split: if_splits)
qed

theorem severalTicks_sequential_witness:
  "(0::int) \<le> 2 \<and> 2 * nat 2 + 1 \<le> (5::nat)
   \<and> run_ticks 5 (severalTicks 2) =
        Some \<lparr> loop_n = - 1, phase = Done, queued = 0,
               trace = [TickRequested, TickFired, TickRequested, TickFired, Returned] \<rparr>
   \<and> run_ticks 4 (severalTicks 2) = None"
  using severalTicks_sequential [of 2 5 0]
  by (simp add: eval_nat_numeral run_ticks.simps severalTicks_def tick_step_def
      nextTick_def host_tick_def)

end
